theory Spec2Isabelle
  imports Main
begin

section \<open>Shared Go values\<close>

text \<open>
  A Go \<open>error\<close> is an interface value. The errors built in this package come from
  \<open>fmt.Errorf\<close> and carry their formatted message; every other error (those of the
  parser packages, of \<open>ingress/errors\<close> and of the secret resolver) is kept opaque
  under \<open>Ext\<close>. A nil error is \<open>None\<close> in an \<open>error option\<close>.
\<close>

datatype 'x error = Errorf string | Ext 'x

text \<open>
  \<open>meta_v1.ObjectMeta\<close>, restricted to the three fields the code reads. Both
  \<open>extensions.Ingress\<close> and \<open>api_v1.Endpoints\<close> embed it.
\<close>

record ObjectMeta =
  Name :: string
  Namespace :: string
  Annotations :: "string \<rightharpoonup> string"

type_synonym Ingress = ObjectMeta

section \<open>controller/annotations.go\<close>

text \<open>
  \<open>parser.IngressAnnotation\<close>: the one method \<open>Parse(ing) (interface{}, error)\<close>.
  The returned interface value is \<open>None\<close> when it is the nil interface.
\<close>

type_synonym ('v, 'x) IngressAnnotation = "Ingress \<Rightarrow> 'v option \<times> 'x error option"

text \<open>
  The struct \<open>annotationExtractor\<close>. The field \<open>annotations\<close> is a Go map; it is kept
  as an association list whose order is the order in which \<open>range\<close> visits the map in
  the call at hand. Go maps have distinct keys, so the theorems that depend on it assume
  \<open>distinct (map fst (annotations e))\<close>; Go leaves the order open, so they hold for
  every list.
\<close>

record ('v, 'x, 's) annotationExtractor =
  secretResolver :: "string \<Rightarrow> 's option \<times> 'x error option"
  annotations :: "(string \<times> ('v, 'x) IngressAnnotation) list"

text \<open>The keys of the map literal in \<open>newAnnotationExtractor\<close>, in the order written.\<close>

definition annotation_names :: "string list" where
  "annotation_names =
    [''BasicDigestAuth'', ''ExternalAuth'', ''CertificateAuth'', ''EnableCORS'',
     ''HealthCheck'', ''Whitelist'', ''UsePortInRedirects'', ''Proxy'', ''RateLimit'',
     ''Redirect'', ''SecureUpstream'', ''SessionAffinity'', ''SSLPassthrough'',
     ''ConfigurationSnippet'']"

text \<open>
  \<open>newAnnotationExtractor\<close>. The parser packages are not part of the sources at hand:
  \<open>NewParser\<close> gives, for each key, the parser its package builds from \<open>cfg\<close>;
  \<open>GetSecret\<close> is the \<open>resolver.Secret\<close> part of \<open>cfg\<close>.
\<close>

definition newAnnotationExtractor ::
  "(string \<Rightarrow> 's option \<times> 'x error option) \<Rightarrow> (string \<Rightarrow> ('v, 'x) IngressAnnotation)
     \<Rightarrow> ('v, 'x, 's) annotationExtractor" where
  "newAnnotationExtractor GetSecret NewParser =
     \<lparr>secretResolver = GetSecret,
      annotations = map (\<lambda>name. (name, NewParser name)) annotation_names\<rparr>"

text \<open>
  A value of the result map \<open>map[string]interface{}\<close> of \<open>Extract\<close>: what a parser
  returned, or the error stored under the denial key.
\<close>

datatype ('v, 'x) annotation_value = Value 'v | Denial "'x error"

text \<open>
  The three \<open>glog\<close> calls of \<open>Extract\<close>, with their arguments: the parser's name, the
  namespace and name of the ingress, and the value or error printed.
\<close>

datatype ('v, 'x) log_entry =
    InfoV5_annotation string string string "'v option"
  | Errorf_error_reading string string string "'x error"
  | InfoV5_error_reading string string string "'x error"

type_synonym ('v, 'x) extract_state =
  "(string \<rightharpoonup> ('v, 'x) annotation_value) \<times> ('v, 'x) log_entry list"

text \<open>Lines 99 to 101: \<open>if val != nil { anns[name] = val }\<close>.\<close>

definition store_val ::
  "string \<Rightarrow> 'v option \<Rightarrow> (string \<rightharpoonup> ('v, 'x) annotation_value)
     \<Rightarrow> (string \<rightharpoonup> ('v, 'x) annotation_value)" where
  "store_val name val anns = (case val of None \<Rightarrow> anns | Some v \<Rightarrow> anns(name \<mapsto> Value v))"

text \<open>
  One iteration of the loop of \<open>Extract\<close> (lines 82 to 101). \<open>IsMissingAnnotations\<close>
  (package \<open>ingress/errors\<close>) and the constant \<open>DeniedKeyName\<close> are declared outside the
  sources at hand and are parameters.
\<close>

definition Extract_body ::
  "('x error \<Rightarrow> bool) \<Rightarrow> string \<Rightarrow> Ingress \<Rightarrow> string \<times> ('v, 'x) IngressAnnotation
     \<Rightarrow> ('v, 'x) extract_state \<Rightarrow> ('v, 'x) extract_state" where
  "Extract_body IsMissingAnnotations DeniedKeyName ing entry st =
     (case entry of (name, annotationParser) \<Rightarrow>
      case st of (anns, lg) \<Rightarrow>
      case annotationParser ing of (val, err) \<Rightarrow>
        let lg1 = lg @ [InfoV5_annotation name (Namespace ing) (Name ing) val] in
        (case err of
           Some e \<Rightarrow>
             if IsMissingAnnotations e then (anns, lg1)
             else if anns DeniedKeyName = None then
               (anns(DeniedKeyName \<mapsto> Denial e),
                lg1 @ [Errorf_error_reading name (Namespace ing) (Name ing) e])
             else
               (store_val name val anns,
                lg1 @ [InfoV5_error_reading name (Namespace ing) (Name ing) e])
         | None \<Rightarrow> (store_val name val anns, lg1)))"

primrec Extract_loop ::
  "('x error \<Rightarrow> bool) \<Rightarrow> string \<Rightarrow> Ingress \<Rightarrow> (string \<times> ('v, 'x) IngressAnnotation) list
     \<Rightarrow> ('v, 'x) extract_state \<Rightarrow> ('v, 'x) extract_state" where
  "Extract_loop IsMissingAnnotations DeniedKeyName ing [] st = st"
| "Extract_loop IsMissingAnnotations DeniedKeyName ing (entry # rest) st =
     Extract_loop IsMissingAnnotations DeniedKeyName ing rest
       (Extract_body IsMissingAnnotations DeniedKeyName ing entry st)"

text \<open>\<open>Extract\<close> with what it logs, then \<open>Extract\<close> itself: the map it returns.\<close>

definition Extract_run ::
  "('x error \<Rightarrow> bool) \<Rightarrow> string \<Rightarrow> ('v, 'x, 's) annotationExtractor \<Rightarrow> Ingress
     \<Rightarrow> ('v, 'x) extract_state" where
  "Extract_run IsMissingAnnotations DeniedKeyName e ing =
     Extract_loop IsMissingAnnotations DeniedKeyName ing (annotations e) (Map.empty, [])"

definition Extract ::
  "('x error \<Rightarrow> bool) \<Rightarrow> string \<Rightarrow> ('v, 'x, 's) annotationExtractor \<Rightarrow> Ingress
     \<Rightarrow> (string \<rightharpoonup> ('v, 'x) annotation_value)" where
  "Extract IsMissingAnnotations DeniedKeyName e ing =
     fst (Extract_run IsMissingAnnotations DeniedKeyName e ing)"

definition Extract_log ::
  "('x error \<Rightarrow> bool) \<Rightarrow> string \<Rightarrow> ('v, 'x, 's) annotationExtractor \<Rightarrow> Ingress
     \<Rightarrow> ('v, 'x) log_entry list" where
  "Extract_log IsMissingAnnotations DeniedKeyName e ing =
     snd (Extract_run IsMissingAnnotations DeniedKeyName e ing)"

text \<open>
  A parser fails hard on \<open>ing\<close> when its error is neither nil nor a missing-annotation
  error (the path of lines 89 to 96).
\<close>

definition hard_failure :: "('x error \<Rightarrow> bool) \<Rightarrow> ('v, 'x) IngressAnnotation \<Rightarrow> Ingress \<Rightarrow> bool" where
  "hard_failure IsMissingAnnotations annotationParser ing =
     (case snd (annotationParser ing) of None \<Rightarrow> False | Some e \<Rightarrow> \<not> IsMissingAnnotations e)"

subsection \<open>Typed accessors\<close>

text \<open>
  The dynamic types an \<open>interface{}\<close> returned by a parser can hold, as far as the type
  assertions of the accessors tell them apart: \<open>bool\<close>, \<open>*healthcheck.Upstream\<close>,
  \<open>*sessionaffinity.AffinityConfig\<close> (a pointer, \<open>None\<close> when nil) and anything else.
  The two structs are declared in the parser packages and stay type parameters.
\<close>

datatype ('u, 'a, 'o) go_value =
    VBool bool
  | VUpstream "'u option"
  | VAffinityConfig "'a option"
  | VOther 'o











subsection \<open>The certificate secret\<close>

text \<open>
  \<open>parser.GetStringAnnotation\<close> is declared in the parser package and is a parameter:
  it returns the annotation's text (the empty string when there is none) and an error
  that both callers drop.
\<close>

type_synonym 'x GetStringAnnotation = "string \<Rightarrow> Ingress \<Rightarrow> string \<times> 'x error option"

definition auth_tls_secret :: string where
  "auth_tls_secret = ''ingress.kubernetes.io/auth-tls-secret''"

definition ContainsCertificateAuth ::
  "'x GetStringAnnotation \<Rightarrow> ('v, 'x, 's) annotationExtractor \<Rightarrow> Ingress \<Rightarrow> bool" where
  "ContainsCertificateAuth GetStringAnnotation e ing =
     (let val = fst (GetStringAnnotation auth_tls_secret ing) in val \<noteq> [])"

definition CertificateAuthSecret ::
  "'x GetStringAnnotation \<Rightarrow> ('v, 'x, 's) annotationExtractor \<Rightarrow> Ingress
     \<Rightarrow> 's option \<times> 'x error option" where
  "CertificateAuthSecret GetStringAnnotation e ing =
     (let val = fst (GetStringAnnotation auth_tls_secret ing) in
      if val = [] then
        (None,
         Some (Errorf (''ingress rule '' @ Namespace ing @ ''/'' @ Name ing @
                       '' does not contain the auth-tls-secret annotation'')))
      else secretResolver e val)"

section \<open>status: getCurrentLeader\<close>

text \<open>
  \<open>resourcelock.LeaderElectionRecord\<close>, with the fields the test
  \<open>TestGetCurrentLeaderLeaderExist\<close> fills in; the two times are seconds.
\<close>

record LeaderElectionRecord =
  HolderIdentity :: string
  LeaseDurationSeconds :: int
  AcquireTime :: int
  RenewTime :: int
  LeaderTransitions :: int

type_synonym Endpoints = ObjectMeta

datatype leader_error = StoreError | ParseError

text \<open>
  Modelled from the spec: \<open>getCurrentLeader\<close> (the file \<open>status/election.go\<close> is not
  among the sources; only its test is). Section 4.2: it reads the resource through the
  store and looks for the lock annotation; absent gives \<open>("", resource, nil)\<close>; present
  but not parseable as a lock record gives \<open>("", nil, ParseError)\<close>; present and
  well-formed gives \<open>(record.holderIdentity, resource, nil)\<close>. The store's read
  (\<open>Get\<close> of section 4.1, by namespace and name), the annotation key and the decoder of
  the record are parameters. The spec does not say what is returned when the read
  itself fails; the model hands back the failure with no identity and no resource, and
  no claim depends on it.
\<close>

definition getCurrentLeader ::
  "string \<Rightarrow> (string \<Rightarrow> LeaderElectionRecord option) \<Rightarrow> string \<Rightarrow> string
     \<Rightarrow> (string \<Rightarrow> string \<Rightarrow> Endpoints option)
     \<Rightarrow> string \<times> Endpoints option \<times> leader_error option" where
  "getCurrentLeader lockKey unmarshal electionID namespace c =
     (case c namespace electionID of
        None \<Rightarrow> ([], None, Some StoreError)
      | Some endpoints \<Rightarrow>
          (case Annotations endpoints lockKey of
             None \<Rightarrow> ([], Some endpoints, None)
           | Some val \<Rightarrow>
               (case unmarshal val of
                  None \<Rightarrow> ([], None, Some ParseError)
                | Some electionRecord \<Rightarrow>
                    (HolderIdentity electionRecord, Some endpoints, None))))"

text \<open>
  \<open>fake.NewSimpleClientset\<close> over a list of endpoints, as the tests build it: a read
  finds the item with the namespace and name asked for.
\<close>

definition NewSimpleClientset :: "Endpoints list \<Rightarrow> string \<Rightarrow> string \<Rightarrow> Endpoints option" where
  "NewSimpleClientset items namespace name =
     find (\<lambda>ep. Namespace ep = namespace \<and> Name ep = name) items"

section \<open>Example inputs\<close>

text \<open>
  Inputs at which the theorems below are evaluated. The parsers stand for those of the
  annotation packages: a boolean annotation read from the ingress, where a missing
  annotation and an unreadable one both come with the value \<open>false\<close>.
\<close>

type_synonym ex_value = "(unit, unit, unit) go_value"

definition ex_ErrMissingAnnotations :: "string error" where
  "ex_ErrMissingAnnotations = Ext ''ingress rule without annotations''"

definition ex_IsMissingAnnotations :: "string error \<Rightarrow> bool" where
  "ex_IsMissingAnnotations e = (e = ex_ErrMissingAnnotations)"

definition ex_bool_parser :: "string \<Rightarrow> (ex_value, string) IngressAnnotation" where
  "ex_bool_parser key ing =
     (case Annotations ing key of
        None \<Rightarrow> (Some (VBool False), Some ex_ErrMissingAnnotations)
      | Some s \<Rightarrow>
          if s = ''true'' then (Some (VBool True), None)
          else if s = ''false'' then (Some (VBool False), None)
          else (Some (VBool False), Some (Ext (''invalid syntax: '' @ s))))"

definition ex_GetStringAnnotation :: "string GetStringAnnotation" where
  "ex_GetStringAnnotation name ing =
     (case Annotations ing name of
        None \<Rightarrow> ([], Some ex_ErrMissingAnnotations)
      | Some s \<Rightarrow> (s, None))"

definition ex_GetSecret :: "string \<Rightarrow> string option \<times> string error option" where
  "ex_GetSecret name =
     (if name = ''default/ca'' then (Some ''-----BEGIN CERTIFICATE-----'', None)
      else (None, Some (Ext (''secret '' @ name @ '' was not found''))))"

definition ex_ingress :: Ingress where
  "ex_ingress =
     \<lparr>Name = ''web'', Namespace = ''default'',
      Annotations =
        [''ingress.kubernetes.io/ssl-passthrough'' \<mapsto> ''true'',
         ''ingress.kubernetes.io/secure-backends'' \<mapsto> ''maybe'',
         ''ingress.kubernetes.io/enable-cors'' \<mapsto> ''perhaps'']\<rparr>"

definition ex_annotations :: "(string \<times> (ex_value, string) IngressAnnotation) list" where
  "ex_annotations =
     [(''SSLPassthrough'', ex_bool_parser ''ingress.kubernetes.io/ssl-passthrough''),
      (''SecureUpstream'', ex_bool_parser ''ingress.kubernetes.io/secure-backends''),
      (''UsePortInRedirects'', ex_bool_parser ''ingress.kubernetes.io/use-port-in-redirects''),
      (''EnableCORS'', ex_bool_parser ''ingress.kubernetes.io/enable-cors'')]"

definition ex_extractor :: "(ex_value, string, string) annotationExtractor" where
  "ex_extractor = \<lparr>secretResolver = ex_GetSecret, annotations = ex_annotations\<rparr>"


text \<open>
  The values of \<open>election_test.go\<close>: the record \<open>fkER\<close> (with a fixed time for
  \<open>time.Now()\<close>), its JSON text, the three endpoints, and a decoder that reads that
  text and rejects the others.
\<close>

definition LeaderElectionRecordAnnotationKey :: string where
  "LeaderElectionRecordAnnotationKey = ''control-plane.alpha.kubernetes.io/leader''"

definition NamespaceSystem :: string where
  "NamespaceSystem = ''kube-system''"

definition fkER :: LeaderElectionRecord where
  "fkER =
     \<lparr>HolderIdentity = ''currentLeader'', LeaseDurationSeconds = 30,
      AcquireTime = 1500000000, RenewTime = 1500000000, LeaderTransitions = 3\<rparr>"

definition leaderInfo :: string where
  \<open>leaderInfo =
     ''{"holderIdentity":"currentLeader","leaseDurationSeconds":30,'' @
     ''"acquireTime":"2017-07-14T02:40:00Z","renewTime":"2017-07-14T02:40:00Z",'' @
     ''"leaderTransitions":3}''\<close>

definition ex_unmarshal :: "string \<Rightarrow> LeaderElectionRecord option" where
  "ex_unmarshal s = (if s = leaderInfo then Some fkER else None)"

definition fkEndpoints_LeaderExist :: Endpoints where
  "fkEndpoints_LeaderExist =
     \<lparr>Name = ''ingress-controller-test'', Namespace = NamespaceSystem,
      Annotations = [LeaderElectionRecordAnnotationKey \<mapsto> leaderInfo]\<rparr>"

definition fkEndpoints_LeaderNotExist :: Endpoints where
  "fkEndpoints_LeaderNotExist =
     \<lparr>Name = ''ingress-controller-test'', Namespace = NamespaceSystem,
      Annotations = Map.empty\<rparr>"

definition fkEndpoints_AnnotationError :: Endpoints where
  "fkEndpoints_AnnotationError =
     \<lparr>Name = ''ingress-controller-test'', Namespace = NamespaceSystem,
      Annotations =
        [LeaderElectionRecordAnnotationKey \<mapsto> ''just-test-error-leader-annotation'']\<rparr>"

section \<open>Properties of the loop of Extract\<close>

lemma Extract_loop_append:
  "Extract_loop M dk ing (ps @ qs) st = Extract_loop M dk ing qs (Extract_loop M dk ing ps st)"
  by (induction ps arbitrary: st) simp_all

text \<open>What one iteration can do to a key that is not the name of its parser.\<close>

lemma Extract_body_keeps:
  assumes "anns k = Some x" and "k \<noteq> fst entry"
  shows "fst (Extract_body M dk ing entry (anns, lg)) k = Some x"
  using assms
  by (cases entry)
     (auto simp: Extract_body_def store_val_def Let_def split: prod.splits option.splits)

lemma Extract_loop_keeps:
  assumes "anns k = Some x" and "k \<notin> fst ` set ps"
  shows "fst (Extract_loop M dk ing ps (anns, lg)) k = Some x"
  using assms
proof (induction ps arbitrary: anns lg)
  case Nil
  then show ?case by simp
next
  case (Cons entry ps)
  obtain anns' lg' where step: "Extract_body M dk ing entry (anns, lg) = (anns', lg')"
    by (cases "Extract_body M dk ing entry (anns, lg)")
  have "k \<noteq> fst entry" using Cons.prems(2) by auto
  with Cons.prems(1) have "anns' k = Some x"
    using Extract_body_keeps [of anns k x entry M dk ing lg] step by simp
  moreover have "k \<notin> fst ` set ps" using Cons.prems(2) by auto
  ultimately show ?case using Cons.IH step by simp
qed

lemma Extract_body_log_irrelevant:
  "fst (Extract_body M dk ing entry (anns, lg)) = fst (Extract_body M dk ing entry (anns, lg'))"
  by (cases entry) (auto simp: Extract_body_def Let_def split: prod.splits option.splits)

lemma Extract_loop_log_irrelevant:
  "fst (Extract_loop M dk ing ps (anns, lg)) = fst (Extract_loop M dk ing ps (anns, lg'))"
proof (induction ps arbitrary: anns lg lg')
  case Nil
  show ?case by simp
next
  case (Cons entry ps)
  obtain a1 l1 where s1: "Extract_body M dk ing entry (anns, lg) = (a1, l1)"
    by (cases "Extract_body M dk ing entry (anns, lg)")
  obtain a2 l2 where s2: "Extract_body M dk ing entry (anns, lg') = (a2, l2)"
    by (cases "Extract_body M dk ing entry (anns, lg')")
  have "a1 = a2"
    using Extract_body_log_irrelevant [of M dk ing entry anns lg lg'] s1 s2 by simp
  then show ?case using Cons.IH [of a1 l1 l2] s1 s2 by simp
qed

lemma Extract_body_absent:
  assumes "anns k = None" and "k \<noteq> fst entry" and "k \<noteq> dk"
  shows "fst (Extract_body M dk ing entry (anns, lg)) k = None"
  using assms
  by (cases entry)
     (auto simp: Extract_body_def store_val_def Let_def split: prod.splits option.splits)

lemma Extract_loop_absent:
  assumes "anns k = None" and "k \<notin> fst ` set ps" and "k \<noteq> dk"
  shows "fst (Extract_loop M dk ing ps (anns, lg)) k = None"
  using assms
proof (induction ps arbitrary: anns lg)
  case Nil
  then show ?case by simp
next
  case (Cons entry ps)
  obtain a1 l1 where s1: "Extract_body M dk ing entry (anns, lg) = (a1, l1)"
    by (cases "Extract_body M dk ing entry (anns, lg)")
  have "k \<noteq> fst entry" using Cons.prems(2) by auto
  then have "a1 k = None"
    using Extract_body_absent [of anns k entry dk M ing lg] Cons.prems s1 by simp
  moreover have "k \<notin> fst ` set ps" using Cons.prems(2) by auto
  ultimately show ?case using Cons.IH [of a1 l1] Cons.prems(3) s1 by simp
qed

lemma Extract_body_no_denial:
  assumes "anns dk = None" and "dk \<noteq> fst entry" and "\<not> hard_failure M (snd entry) ing"
  shows "fst (Extract_body M dk ing entry (anns, lg)) dk = None"
  using assms
  by (cases entry)
     (auto simp: Extract_body_def store_val_def hard_failure_def Let_def
           split: prod.splits option.splits)

lemma Extract_loop_no_denial:
  assumes "anns dk = None" and "dk \<notin> fst ` set ps"
    and "\<forall>(n, p) \<in> set ps. \<not> hard_failure M p ing"
  shows "fst (Extract_loop M dk ing ps (anns, lg)) dk = None"
  using assms
proof (induction ps arbitrary: anns lg)
  case Nil
  then show ?case by simp
next
  case (Cons entry ps)
  obtain a1 l1 where s1: "Extract_body M dk ing entry (anns, lg) = (a1, l1)"
    by (cases "Extract_body M dk ing entry (anns, lg)")
  have "dk \<noteq> fst entry" using Cons.prems(2) by auto
  moreover have "\<not> hard_failure M (snd entry) ing" using Cons.prems(3) by (cases entry) auto
  ultimately have "a1 dk = None"
    using Extract_body_no_denial [of anns dk entry M ing lg] Cons.prems(1) s1 by simp
  moreover have "dk \<notin> fst ` set ps" using Cons.prems(2) by auto
  moreover have "\<forall>(n, p) \<in> set ps. \<not> hard_failure M p ing" using Cons.prems(3) by auto
  ultimately show ?case using Cons.IH [of a1 l1] s1 by simp
qed

text \<open>The domain of the map and the log only grow.\<close>

lemma Extract_body_dom:
  assumes "anns k \<noteq> None"
  shows "fst (Extract_body M dk ing entry (anns, lg)) k \<noteq> None"
  using assms
  by (cases entry)
     (auto simp: Extract_body_def store_val_def Let_def split: prod.splits option.splits)

lemma Extract_loop_dom:
  assumes "anns k \<noteq> None"
  shows "fst (Extract_loop M dk ing ps (anns, lg)) k \<noteq> None"
  using assms
proof (induction ps arbitrary: anns lg)
  case Nil
  then show ?case by simp
next
  case (Cons entry ps)
  obtain a1 l1 where s1: "Extract_body M dk ing entry (anns, lg) = (a1, l1)"
    by (cases "Extract_body M dk ing entry (anns, lg)")
  have "a1 k \<noteq> None"
    using Extract_body_dom [of anns k M dk ing entry lg] Cons.prems s1 by simp
  then show ?case using Cons.IH [of a1 l1] s1 by simp
qed

lemma Extract_body_log:
  "set lg \<subseteq> set (snd (Extract_body M dk ing entry (anns, lg)))"
  by (cases entry)
     (auto simp: Extract_body_def Let_def split: prod.splits option.splits)

lemma Extract_loop_log:
  "set lg \<subseteq> set (snd (Extract_loop M dk ing ps (anns, lg)))"
proof (induction ps arbitrary: anns lg)
  case Nil
  show ?case by simp
next
  case (Cons entry ps)
  obtain a1 l1 where s1: "Extract_body M dk ing entry (anns, lg) = (a1, l1)"
    by (cases "Extract_body M dk ing entry (anns, lg)")
  have "set lg \<subseteq> set l1"
    using Extract_body_log [of lg M dk ing entry anns] s1 by simp
  moreover have "set l1 \<subseteq> set (snd (Extract_loop M dk ing ps (a1, l1)))"
    by (rule Cons.IH)
  ultimately show ?case using s1 by simp
qed

lemma Extract_loop_denied_after_hard_failure:
  assumes "(n, p) \<in> set ps" and "hard_failure M p ing"
  shows "fst (Extract_loop M dk ing ps (anns, lg)) dk \<noteq> None"
  using assms
proof (induction ps arbitrary: anns lg)
  case Nil
  then show ?case by simp
next
  case (Cons entry ps)
  obtain a1 l1 where s1: "Extract_body M dk ing entry (anns, lg) = (a1, l1)"
    by (cases "Extract_body M dk ing entry (anns, lg)")
  show ?case
  proof (cases "entry = (n, p)")
    case True
    have "a1 dk \<noteq> None"
      using s1 True Cons.prems(2)
      by (auto simp: Extract_body_def store_val_def hard_failure_def Let_def
               split: prod.splits option.splits if_splits)
    then show ?thesis using Extract_loop_dom [of a1 dk M dk ing ps l1] s1 by simp
  next
    case False
    then have "(n, p) \<in> set ps" using Cons.prems(1) by simp
    then show ?thesis using Cons.IH [of a1 l1] Cons.prems(2) s1 by simp
  qed
qed

lemma Extract_loop_later_failure_logged:
  assumes "anns dk \<noteq> None" and "(n, p) \<in> set ps"
    and "p ing = (val, Some err)" and "\<not> M err"
  shows "InfoV5_error_reading n (Namespace ing) (Name ing) err
           \<in> set (snd (Extract_loop M dk ing ps (anns, lg)))"
  using assms(1,2)
proof (induction ps arbitrary: anns lg)
  case Nil
  then show ?case by simp
next
  case (Cons entry ps)
  obtain a1 l1 where s1: "Extract_body M dk ing entry (anns, lg) = (a1, l1)"
    by (cases "Extract_body M dk ing entry (anns, lg)")
  have denied: "a1 dk \<noteq> None"
    using Extract_body_dom [of anns dk M dk ing entry lg] Cons.prems(1) s1 by simp
  show ?case
  proof (cases "entry = (n, p)")
    case True
    have "InfoV5_error_reading n (Namespace ing) (Name ing) err \<in> set l1"
      using s1 True Cons.prems(1) assms(3,4)
      by (auto simp: Extract_body_def Let_def)
    then show ?thesis using Extract_loop_log [of l1 M dk ing ps a1] s1 by auto
  next
    case False
    then have "(n, p) \<in> set ps" using Cons.prems(2) by simp
    then show ?thesis using Cons.IH [of a1 l1] denied s1 by simp
  qed
qed

text \<open>Once the denial key holds an error and is no parser's name, it is the only error.\<close>

lemma Extract_body_denied_cases:
  assumes "anns dk \<noteq> None"
  shows "fst (Extract_body M dk ing entry (anns, lg)) = anns \<or>
         (\<exists>v. fst (Extract_body M dk ing entry (anns, lg)) = anns(fst entry \<mapsto> Value v))"
  using assms
  by (cases entry)
     (auto simp: Extract_body_def store_val_def Let_def split: prod.splits option.splits)

lemma Extract_body_only_denial:
  assumes step: "Extract_body M dk ing entry (anns, lg) = (a1, l1)"
    and denied: "anns dk = Some (Denial err)"
    and only: "\<forall>k x. anns k = Some (Denial x) \<longrightarrow> k = dk \<and> x = err"
    and other: "dk \<noteq> fst entry"
  shows "a1 dk = Some (Denial err) \<and> (\<forall>k x. a1 k = Some (Denial x) \<longrightarrow> k = dk \<and> x = err)"
proof -
  have "anns dk \<noteq> None" using denied by simp
  then have "fst (Extract_body M dk ing entry (anns, lg)) = anns \<or>
      (\<exists>v. fst (Extract_body M dk ing entry (anns, lg)) = anns(fst entry \<mapsto> Value v))"
    by (rule Extract_body_denied_cases)
  then consider (same) "a1 = anns" | (stored) v where "a1 = anns(fst entry \<mapsto> Value v)"
    unfolding step fst_conv by blast
  then show ?thesis
  proof cases
    case same
    show ?thesis unfolding same using denied only by blast
  next
    case stored
    have at_dk: "a1 dk = Some (Denial err)"
      unfolding stored using denied other by simp
    have "\<forall>k x. a1 k = Some (Denial x) \<longrightarrow> k = dk \<and> x = err"
    proof (intro allI impI)
      fix k x
      assume h: "a1 k = Some (Denial x)"
      have "k \<noteq> fst entry"
      proof
        assume "k = fst entry"
        then have "a1 k = Some (Value v)" unfolding stored by simp
        with h show False by simp
      qed
      then have "anns k = Some (Denial x)" using h unfolding stored by simp
      with only show "k = dk \<and> x = err" by blast
    qed
    with at_dk show ?thesis by blast
  qed
qed

lemma Extract_loop_only_denial:
  assumes "anns dk = Some (Denial err)"
    and "\<forall>k x. anns k = Some (Denial x) \<longrightarrow> k = dk \<and> x = err"
    and "dk \<notin> fst ` set ps"
  shows "fst (Extract_loop M dk ing ps (anns, lg)) dk = Some (Denial err) \<and>
         (\<forall>k x. fst (Extract_loop M dk ing ps (anns, lg)) k = Some (Denial x)
            \<longrightarrow> k = dk \<and> x = err)"
  using assms
proof (induction ps arbitrary: anns lg)
  case Nil
  show ?case unfolding Extract_loop.simps fst_conv using Nil.prems(1,2) by blast
next
  case (Cons entry ps)
  obtain a1 l1 where s1: "Extract_body M dk ing entry (anns, lg) = (a1, l1)"
    by (cases "Extract_body M dk ing entry (anns, lg)")
  have other: "dk \<noteq> fst entry" using Cons.prems(3) by auto
  have rest: "dk \<notin> fst ` set ps" using Cons.prems(3) by auto
  have inv: "a1 dk = Some (Denial err) \<and> (\<forall>k x. a1 k = Some (Denial x) \<longrightarrow> k = dk \<and> x = err)"
    by (rule Extract_body_only_denial [OF s1 Cons.prems(1) Cons.prems(2) other])
  show ?case
    unfolding Extract_loop.simps s1
    by (rule Cons.IH [OF conjunct1 [OF inv] conjunct2 [OF inv] rest])
qed

lemma Extract_loop_no_denial_entries:
  assumes "\<forall>k x. anns k \<noteq> Some (Denial x)"
    and "\<forall>(n, p) \<in> set ps. \<not> hard_failure M p ing"
  shows "\<forall>k x. fst (Extract_loop M dk ing ps (anns, lg)) k \<noteq> Some (Denial x)"
  using assms
proof (induction ps arbitrary: anns lg)
  case Nil
  then show ?case by simp
next
  case (Cons entry ps)
  obtain a1 l1 where s1: "Extract_body M dk ing entry (anns, lg) = (a1, l1)"
    by (cases "Extract_body M dk ing entry (anns, lg)")
  have "\<not> hard_failure M (snd entry) ing" using Cons.prems(2) by (cases entry) auto
  then have "\<forall>k x. a1 k \<noteq> Some (Denial x)"
    using s1 Cons.prems(1)
    by (cases entry)
       (auto simp: Extract_body_def store_val_def hard_failure_def Let_def
             split: prod.splits option.splits if_splits)
  moreover have "\<forall>(n, p) \<in> set ps. \<not> hard_failure M p ing" using Cons.prems(2) by auto
  ultimately show ?case using Cons.IH [of a1 l1] s1 by simp
qed

subsection \<open>Unfolding the examples\<close>

lemmas ex_defs =
  ex_extractor_def ex_annotations_def ex_ingress_def ex_bool_parser_def
  ex_IsMissingAnnotations_def ex_ErrMissingAnnotations_def

subsection \<open>The registry that newAnnotationExtractor builds\<close>

text \<open>
  Its names are distinct and none of them is \<open>Denied\<close>, the key the spec gives as the
  denial key: the two assumptions made on a registry below hold for it.
\<close>

lemma newAnnotationExtractor_distinct:
  "distinct (map fst (annotations (newAnnotationExtractor GetSecret NewParser)))"
  by (simp add: newAnnotationExtractor_def annotation_names_def comp_def)

lemma newAnnotationExtractor_reserved:
  "''Denied'' \<notin> fst ` set (annotations (newAnnotationExtractor GetSecret NewParser))"
  by (simp add: newAnnotationExtractor_def annotation_names_def)



section \<open>Claims\<close>

text \<open>
  C1. For every ingress and every registry with distinct names (a Go map), the map
  returned by \<open>Extract\<close> holds, under the name of every parser that returned a non-nil
  value and a nil error, exactly that value. Nothing is assumed about the other parsers
  or about the order of iteration: they may fail, before or after, in any number.
\<close>

theorem Extract_contains_every_success:
  assumes "distinct (map fst (annotations e))"
    and "(name, annotationParser) \<in> set (annotations e)"
    and "annotationParser ing = (Some v, None)"
  shows "Extract IsMissingAnnotations DeniedKeyName e ing name = Some (Value v)"
proof -
  from assms(2) obtain ps qs where split: "annotations e = ps @ (name, annotationParser) # qs"
    by (auto dest: split_list)
  obtain anns lg where before:
    "Extract_loop IsMissingAnnotations DeniedKeyName ing ps (Map.empty, []) = (anns, lg)"
    by (cases "Extract_loop IsMissingAnnotations DeniedKeyName ing ps (Map.empty, [])")
  obtain anns' lg' where step:
    "Extract_body IsMissingAnnotations DeniedKeyName ing (name, annotationParser) (anns, lg)
       = (anns', lg')"
    by (cases "Extract_body IsMissingAnnotations DeniedKeyName ing (name, annotationParser) (anns, lg)")
  have stored: "anns' name = Some (Value v)"
    using step assms(3) by (auto simp: Extract_body_def store_val_def Let_def)
  have "name \<notin> fst ` set qs"
    using assms(1) split by auto
  with stored have "fst (Extract_loop IsMissingAnnotations DeniedKeyName ing qs (anns', lg')) name
      = Some (Value v)"
    by (rule Extract_loop_keeps)
  then show ?thesis
    by (simp add: Extract_def Extract_run_def split Extract_loop_append before step)
qed

text \<open>
  At the example: \<open>SSLPassthrough\<close> parses to \<open>true\<close> while \<open>SecureUpstream\<close>,
  visited after it, fails hard; the entry of \<open>SSLPassthrough\<close> is in the result.
\<close>

theorem Extract_contains_every_success_witness:
  "distinct (map fst (annotations ex_extractor))
   \<and> (''SSLPassthrough'', ex_bool_parser ''ingress.kubernetes.io/ssl-passthrough'')
        \<in> set (annotations ex_extractor)
   \<and> ex_bool_parser ''ingress.kubernetes.io/ssl-passthrough'' ex_ingress
        = (Some (VBool True), None)
   \<and> hard_failure ex_IsMissingAnnotations
        (ex_bool_parser ''ingress.kubernetes.io/secure-backends'') ex_ingress
   \<and> Extract ex_IsMissingAnnotations ''Denied'' ex_extractor ex_ingress ''SSLPassthrough''
        = Some (Value (VBool True))"
proof -
  have d: "distinct (map fst (annotations ex_extractor))"
    by (simp add: ex_defs)
  have m: "(''SSLPassthrough'', ex_bool_parser ''ingress.kubernetes.io/ssl-passthrough'')
        \<in> set (annotations ex_extractor)"
    by (simp add: ex_extractor_def ex_annotations_def)
  have p: "ex_bool_parser ''ingress.kubernetes.io/ssl-passthrough'' ex_ingress
        = (Some (VBool True), None)"
    by (simp add: ex_defs)
  have f: "hard_failure ex_IsMissingAnnotations
        (ex_bool_parser ''ingress.kubernetes.io/secure-backends'') ex_ingress"
    by (simp add: ex_defs hard_failure_def)
  have "Extract ex_IsMissingAnnotations ''Denied'' ex_extractor ex_ingress ''SSLPassthrough''
        = Some (Value (VBool True))"
    by (rule Extract_contains_every_success [OF d m p])
  with d m p f show ?thesis by blast
qed

text \<open>
  C2. Let the denial key be reserved, that is, no parser's name. If the parser visited at
  some position fails with an error that is not a missing-annotation error, and no parser
  visited before it fails hard, then the map returned by \<open>Extract\<close> holds exactly that
  error under the denial key, and it holds no other error under any key. The error is
  logged at error level; every parser visited later that fails hard has its error logged
  at verbosity 5 only (its error is not in the map).
\<close>

theorem Extract_denial_is_first_hard_failure:
  assumes reserved: "DeniedKeyName \<notin> fst ` set (annotations e)"
    and split: "annotations e = ps @ (name, annotationParser) # qs"
    and first: "\<forall>(n, p) \<in> set ps. \<not> hard_failure IsMissingAnnotations p ing"
    and parse: "annotationParser ing = (val, Some err)"
    and hard: "\<not> IsMissingAnnotations err"
  shows "Extract IsMissingAnnotations DeniedKeyName e ing DeniedKeyName = Some (Denial err)
     \<and> (\<forall>k x. Extract IsMissingAnnotations DeniedKeyName e ing k = Some (Denial x)
            \<longrightarrow> k = DeniedKeyName \<and> x = err)
     \<and> Errorf_error_reading name (Namespace ing) (Name ing) err
          \<in> set (Extract_log IsMissingAnnotations DeniedKeyName e ing)
     \<and> (\<forall>(n, p) \<in> set qs. \<forall>val' err'.
            p ing = (val', Some err') \<and> \<not> IsMissingAnnotations err'
            \<longrightarrow> InfoV5_error_reading n (Namespace ing) (Name ing) err'
                  \<in> set (Extract_log IsMissingAnnotations DeniedKeyName e ing))"
proof -
  let ?M = IsMissingAnnotations and ?dk = DeniedKeyName
  obtain a0 l0 where before: "Extract_loop ?M ?dk ing ps (Map.empty, []) = (a0, l0)"
    by (cases "Extract_loop ?M ?dk ing ps (Map.empty, [])")
  have dk_ps: "?dk \<notin> fst ` set ps" and dk_qs: "?dk \<notin> fst ` set qs"
    using reserved split by auto
  have "fst (Extract_loop ?M ?dk ing ps (Map.empty, [])) ?dk = None"
    by (rule Extract_loop_no_denial [OF _ dk_ps first]) simp
  then have a0_dk: "a0 ?dk = None" using before by simp
  have "\<forall>k x. fst (Extract_loop ?M ?dk ing ps (Map.empty, [])) k \<noteq> Some (Denial x)"
    by (rule Extract_loop_no_denial_entries [OF _ first]) simp
  then have a0_clean: "\<forall>k x. a0 k \<noteq> Some (Denial x)" using before by simp
  define a1 where "a1 = a0(?dk \<mapsto> Denial err)"
  define l1 where "l1 = l0 @ [InfoV5_annotation name (Namespace ing) (Name ing) val,
                             Errorf_error_reading name (Namespace ing) (Name ing) err]"
  have step: "Extract_body ?M ?dk ing (name, annotationParser) (a0, l0) = (a1, l1)"
    using parse hard a0_dk by (simp add: Extract_body_def Let_def a1_def l1_def)
  have run: "Extract_run ?M ?dk e ing = Extract_loop ?M ?dk ing qs (a1, l1)"
    by (simp add: Extract_run_def split Extract_loop_append before step)
  have a1_dk: "a1 ?dk = Some (Denial err)" by (simp add: a1_def)
  have a1_only: "\<forall>k x. a1 k = Some (Denial x) \<longrightarrow> k = ?dk \<and> x = err"
  proof (intro allI impI)
    fix k x
    assume h: "a1 k = Some (Denial x)"
    show "k = ?dk \<and> x = err"
    proof (cases "k = ?dk")
      case True
      then show ?thesis using h by (simp add: a1_def)
    next
      case False
      then have "a0 k = Some (Denial x)" using h by (simp add: a1_def)
      with a0_clean show ?thesis by blast
    qed
  qed
  have snapshot:
    "fst (Extract_loop ?M ?dk ing qs (a1, l1)) ?dk = Some (Denial err) \<and>
     (\<forall>k x. fst (Extract_loop ?M ?dk ing qs (a1, l1)) k = Some (Denial x)
        \<longrightarrow> k = ?dk \<and> x = err)"
    by (rule Extract_loop_only_denial [OF a1_dk a1_only dk_qs])
  have "Errorf_error_reading name (Namespace ing) (Name ing) err \<in> set l1"
    by (simp add: l1_def)
  then have logged: "Errorf_error_reading name (Namespace ing) (Name ing) err
      \<in> set (snd (Extract_loop ?M ?dk ing qs (a1, l1)))"
    using Extract_loop_log [of l1 ?M ?dk ing qs a1] by blast
  have a1_denied: "a1 ?dk \<noteq> None" using a1_dk by simp
  have later: "\<forall>(n, p) \<in> set qs. \<forall>val' err'.
            p ing = (val', Some err') \<and> \<not> ?M err'
            \<longrightarrow> InfoV5_error_reading n (Namespace ing) (Name ing) err'
                  \<in> set (snd (Extract_loop ?M ?dk ing qs (a1, l1)))"
  proof (intro ballI, clarify)
    fix n p val' err'
    assume "(n, p) \<in> set qs" and "p ing = (val', Some err')" and "\<not> ?M err'"
    then show "InfoV5_error_reading n (Namespace ing) (Name ing) err'
                  \<in> set (snd (Extract_loop ?M ?dk ing qs (a1, l1)))"
      by (rule Extract_loop_later_failure_logged [where anns = a1 and dk = DeniedKeyName, OF a1_denied])
  qed
  show ?thesis
    unfolding Extract_def Extract_log_def run
    using snapshot logged later by blast
qed

text \<open>
  At the example: \<open>SecureUpstream\<close> is the first hard failure and \<open>EnableCORS\<close> the
  second; the denial key holds the error of the first, the second is in the log.
\<close>

theorem Extract_denial_is_first_hard_failure_witness:
  "''Denied'' \<notin> fst ` set (annotations ex_extractor)
   \<and> annotations ex_extractor =
       [(''SSLPassthrough'', ex_bool_parser ''ingress.kubernetes.io/ssl-passthrough'')]
       @ (''SecureUpstream'', ex_bool_parser ''ingress.kubernetes.io/secure-backends'')
       # [(''UsePortInRedirects'', ex_bool_parser ''ingress.kubernetes.io/use-port-in-redirects''),
          (''EnableCORS'', ex_bool_parser ''ingress.kubernetes.io/enable-cors'')]
   \<and> \<not> hard_failure ex_IsMissingAnnotations
         (ex_bool_parser ''ingress.kubernetes.io/ssl-passthrough'') ex_ingress
   \<and> ex_bool_parser ''ingress.kubernetes.io/secure-backends'' ex_ingress
       = (Some (VBool False), Some (Ext ''invalid syntax: maybe''))
   \<and> \<not> ex_IsMissingAnnotations (Ext ''invalid syntax: maybe'')
   \<and> ex_bool_parser ''ingress.kubernetes.io/enable-cors'' ex_ingress
       = (Some (VBool False), Some (Ext ''invalid syntax: perhaps''))
   \<and> \<not> ex_IsMissingAnnotations (Ext ''invalid syntax: perhaps'')
   \<and> Extract ex_IsMissingAnnotations ''Denied'' ex_extractor ex_ingress ''Denied''
       = Some (Denial (Ext ''invalid syntax: maybe''))
   \<and> Errorf_error_reading ''SecureUpstream'' ''default'' ''web'' (Ext ''invalid syntax: maybe'')
       \<in> set (Extract_log ex_IsMissingAnnotations ''Denied'' ex_extractor ex_ingress)
   \<and> InfoV5_error_reading ''EnableCORS'' ''default'' ''web'' (Ext ''invalid syntax: perhaps'')
       \<in> set (Extract_log ex_IsMissingAnnotations ''Denied'' ex_extractor ex_ingress)"
proof -
  let ?ps = "[(''SSLPassthrough'', ex_bool_parser ''ingress.kubernetes.io/ssl-passthrough'')]"
  let ?qs = "[(''UsePortInRedirects'', ex_bool_parser ''ingress.kubernetes.io/use-port-in-redirects''),
              (''EnableCORS'', ex_bool_parser ''ingress.kubernetes.io/enable-cors'')]"
  have reserved: "''Denied'' \<notin> fst ` set (annotations ex_extractor)"
    by (simp add: ex_extractor_def ex_annotations_def)
  have split: "annotations ex_extractor =
       ?ps @ (''SecureUpstream'', ex_bool_parser ''ingress.kubernetes.io/secure-backends'') # ?qs"
    by (simp add: ex_extractor_def ex_annotations_def)
  have ok: "\<not> hard_failure ex_IsMissingAnnotations
         (ex_bool_parser ''ingress.kubernetes.io/ssl-passthrough'') ex_ingress"
    by (simp add: ex_defs hard_failure_def)
  then have first: "\<forall>(n, p) \<in> set ?ps. \<not> hard_failure ex_IsMissingAnnotations p ex_ingress"
    by simp
  have parse: "ex_bool_parser ''ingress.kubernetes.io/secure-backends'' ex_ingress
       = (Some (VBool False), Some (Ext ''invalid syntax: maybe''))"
    by (simp add: ex_defs)
  have hard: "\<not> ex_IsMissingAnnotations (Ext ''invalid syntax: maybe'')"
    by (simp add: ex_defs)
  have parse2: "ex_bool_parser ''ingress.kubernetes.io/enable-cors'' ex_ingress
       = (Some (VBool False), Some (Ext ''invalid syntax: perhaps''))"
    by (simp add: ex_defs)
  have hard2: "\<not> ex_IsMissingAnnotations (Ext ''invalid syntax: perhaps'')"
    by (simp add: ex_defs)
  note inst = Extract_denial_is_first_hard_failure [OF reserved split first parse hard]
  have c1: "Extract ex_IsMissingAnnotations ''Denied'' ex_extractor ex_ingress ''Denied''
       = Some (Denial (Ext ''invalid syntax: maybe''))"
    using inst by blast
  have c2: "Errorf_error_reading ''SecureUpstream'' (Namespace ex_ingress) (Name ex_ingress)
        (Ext ''invalid syntax: maybe'')
       \<in> set (Extract_log ex_IsMissingAnnotations ''Denied'' ex_extractor ex_ingress)"
    using inst by blast
  have "(''EnableCORS'', ex_bool_parser ''ingress.kubernetes.io/enable-cors'') \<in> set ?qs"
    by simp
  then have c3: "InfoV5_error_reading ''EnableCORS'' (Namespace ex_ingress) (Name ex_ingress)
        (Ext ''invalid syntax: perhaps'')
       \<in> set (Extract_log ex_IsMissingAnnotations ''Denied'' ex_extractor ex_ingress)"
    using inst parse2 hard2 by blast
  have names: "Namespace ex_ingress = ''default''" "Name ex_ingress = ''web''"
    by (simp_all add: ex_ingress_def)
  show ?thesis
    using reserved split ok parse hard parse2 hard2 c1 c2 c3 unfolding names by blast
qed

text \<open>
  C3, as amended. When the annotation \<open>auth-tls-secret\<close> is absent (the empty string),
  \<open>CertificateAuthSecret\<close> returns no secret and an error, built by \<open>fmt.Errorf\<close>, that
  names the ingress by namespace and name and says that it does not contain the
  annotation. When the annotation is present, it returns what \<open>GetSecret\<close> returns for
  the annotation's text, secret and error unchanged. \<open>ContainsCertificateAuth\<close> is the
  accessor that reports the absence without an error.
\<close>

theorem CertificateAuthSecret_result:
  "(fst (GetStringAnnotation auth_tls_secret ing) = [] \<longrightarrow>
      CertificateAuthSecret GetStringAnnotation e ing
        = (None, Some (Errorf (''ingress rule '' @ Namespace ing @ ''/'' @ Name ing @
                               '' does not contain the auth-tls-secret annotation''))))
   \<and> (fst (GetStringAnnotation auth_tls_secret ing) \<noteq> [] \<longrightarrow>
      CertificateAuthSecret GetStringAnnotation e ing
        = secretResolver e (fst (GetStringAnnotation auth_tls_secret ing)))
   \<and> (ContainsCertificateAuth GetStringAnnotation e ing
        \<longleftrightarrow> fst (GetStringAnnotation auth_tls_secret ing) \<noteq> [])"
  by (simp add: CertificateAuthSecret_def ContainsCertificateAuth_def Let_def)

text \<open>
  At the examples: no annotation; an annotation naming a secret that is found; an
  annotation naming a secret whose fetch fails.
\<close>

theorem CertificateAuthSecret_result_witness:
  "fst (ex_GetStringAnnotation auth_tls_secret ex_ingress) = []
   \<and> CertificateAuthSecret ex_GetStringAnnotation ex_extractor ex_ingress
       = (None, Some (Errorf
           ''ingress rule default/web does not contain the auth-tls-secret annotation''))
   \<and> fst (ex_GetStringAnnotation auth_tls_secret
            (ex_ingress\<lparr>Annotations := [auth_tls_secret \<mapsto> ''default/ca'']\<rparr>)) \<noteq> []
   \<and> CertificateAuthSecret ex_GetStringAnnotation ex_extractor
         (ex_ingress\<lparr>Annotations := [auth_tls_secret \<mapsto> ''default/ca'']\<rparr>)
       = (Some ''-----BEGIN CERTIFICATE-----'', None)
   \<and> fst (ex_GetStringAnnotation auth_tls_secret
            (ex_ingress\<lparr>Annotations := [auth_tls_secret \<mapsto> ''default/gone'']\<rparr>)) \<noteq> []
   \<and> CertificateAuthSecret ex_GetStringAnnotation ex_extractor
         (ex_ingress\<lparr>Annotations := [auth_tls_secret \<mapsto> ''default/gone'']\<rparr>)
       = (None, Some (Ext ''secret default/gone was not found''))"
proof -
  let ?ca = "ex_ingress\<lparr>Annotations := [auth_tls_secret \<mapsto> ''default/ca'']\<rparr>"
  let ?gone = "ex_ingress\<lparr>Annotations := [auth_tls_secret \<mapsto> ''default/gone'']\<rparr>"
  have absent: "fst (ex_GetStringAnnotation auth_tls_secret ex_ingress) = []"
    by (simp add: ex_GetStringAnnotation_def ex_ingress_def auth_tls_secret_def)
  have ca: "fst (ex_GetStringAnnotation auth_tls_secret ?ca) = ''default/ca''"
    by (simp add: ex_GetStringAnnotation_def)
  have gone: "fst (ex_GetStringAnnotation auth_tls_secret ?gone) = ''default/gone''"
    by (simp add: ex_GetStringAnnotation_def)
  have c1: "CertificateAuthSecret ex_GetStringAnnotation ex_extractor ex_ingress
       = (None, Some (Errorf
           ''ingress rule default/web does not contain the auth-tls-secret annotation''))"
    using CertificateAuthSecret_result [of ex_GetStringAnnotation ex_ingress ex_extractor] absent
    by (simp add: ex_ingress_def)
  have c2: "CertificateAuthSecret ex_GetStringAnnotation ex_extractor ?ca
       = (Some ''-----BEGIN CERTIFICATE-----'', None)"
    using CertificateAuthSecret_result [of ex_GetStringAnnotation ?ca ex_extractor] ca
    by (simp add: ex_extractor_def ex_GetSecret_def)
  have c3: "CertificateAuthSecret ex_GetStringAnnotation ex_extractor ?gone
       = (None, Some (Ext ''secret default/gone was not found''))"
    using CertificateAuthSecret_result [of ex_GetStringAnnotation ?gone ex_extractor] gone
    by (simp add: ex_extractor_def ex_GetSecret_def)
  show ?thesis using absent ca gone c1 c2 c3 by simp
qed

text \<open>
  The claim as it was stated fails: on an ingress without the annotation the accessor
  returns an error, not a result free of errors.
\<close>

theorem CertificateAuthSecret_absent_counterexample:
  "fst (ex_GetStringAnnotation auth_tls_secret ex_ingress) = []
   \<and> CertificateAuthSecret ex_GetStringAnnotation ex_extractor ex_ingress
       = (None, Some (Errorf
           ''ingress rule default/web does not contain the auth-tls-secret annotation''))"
  by (simp add: CertificateAuthSecret_def ex_GetStringAnnotation_def ex_ingress_def
        auth_tls_secret_def)



text \<open>
  C5. When the parser visited at some position returns a missing-annotation error, its
  iteration changes nothing in the map, whatever the map holds then, and logs only the
  verbosity-5 line that every parser gets. The map returned by \<open>Extract\<close> is the map
  returned for the registry without that parser; and, names being distinct and the
  parser's name not the denial key, it has no entry under the parser's name.
\<close>

theorem Extract_skips_missing_annotation:
  assumes split: "annotations e = ps @ (name, annotationParser) # qs"
    and parse: "annotationParser ing = (val, Some err)"
    and missing: "IsMissingAnnotations err"
  shows "(\<forall>anns lg.
            Extract_body IsMissingAnnotations DeniedKeyName ing (name, annotationParser) (anns, lg)
              = (anns, lg @ [InfoV5_annotation name (Namespace ing) (Name ing) val]))
     \<and> Extract IsMissingAnnotations DeniedKeyName e ing
          = Extract IsMissingAnnotations DeniedKeyName (e\<lparr>annotations := ps @ qs\<rparr>) ing
     \<and> (distinct (map fst (annotations e)) \<and> name \<noteq> DeniedKeyName
          \<longrightarrow> Extract IsMissingAnnotations DeniedKeyName e ing name = None)"
proof -
  let ?M = IsMissingAnnotations and ?dk = DeniedKeyName
  have body: "\<And>anns lg. Extract_body ?M ?dk ing (name, annotationParser) (anns, lg)
              = (anns, lg @ [InfoV5_annotation name (Namespace ing) (Name ing) val])"
    using parse missing by (simp add: Extract_body_def Let_def)
  obtain a0 l0 where before: "Extract_loop ?M ?dk ing ps (Map.empty, []) = (a0, l0)"
    by (cases "Extract_loop ?M ?dk ing ps (Map.empty, [])")
  have with_it: "Extract ?M ?dk e ing
      = fst (Extract_loop ?M ?dk ing qs
               (a0, l0 @ [InfoV5_annotation name (Namespace ing) (Name ing) val]))"
    by (simp add: Extract_def Extract_run_def split Extract_loop_append before body)
  have without: "Extract ?M ?dk (e\<lparr>annotations := ps @ qs\<rparr>) ing
      = fst (Extract_loop ?M ?dk ing qs (a0, l0))"
    by (simp add: Extract_def Extract_run_def Extract_loop_append before)
  have same: "Extract ?M ?dk e ing = Extract ?M ?dk (e\<lparr>annotations := ps @ qs\<rparr>) ing"
    unfolding with_it without by (rule Extract_loop_log_irrelevant)
  have absent: "Extract ?M ?dk e ing name = None"
    if d: "distinct (map fst (annotations e))" and n: "name \<noteq> ?dk"
  proof -
    have nm: "name \<notin> fst ` set (ps @ qs)" using d split by auto
    have "fst (Extract_loop ?M ?dk ing (ps @ qs) (Map.empty, [])) name = None"
      by (rule Extract_loop_absent [OF _ nm n]) simp
    then show ?thesis
      unfolding same by (simp add: Extract_def Extract_run_def)
  qed
  show ?thesis using body same absent by blast
qed

text \<open>
  At the example: \<open>UsePortInRedirects\<close> has no annotation on the ingress.
\<close>

theorem Extract_skips_missing_annotation_witness:
  "annotations ex_extractor =
       [(''SSLPassthrough'', ex_bool_parser ''ingress.kubernetes.io/ssl-passthrough''),
        (''SecureUpstream'', ex_bool_parser ''ingress.kubernetes.io/secure-backends'')]
       @ (''UsePortInRedirects'', ex_bool_parser ''ingress.kubernetes.io/use-port-in-redirects'')
       # [(''EnableCORS'', ex_bool_parser ''ingress.kubernetes.io/enable-cors'')]
   \<and> ex_bool_parser ''ingress.kubernetes.io/use-port-in-redirects'' ex_ingress
       = (Some (VBool False), Some ex_ErrMissingAnnotations)
   \<and> ex_IsMissingAnnotations ex_ErrMissingAnnotations
   \<and> distinct (map fst (annotations ex_extractor))
   \<and> ''UsePortInRedirects'' \<noteq> ''Denied''
   \<and> Extract ex_IsMissingAnnotations ''Denied'' ex_extractor ex_ingress ''UsePortInRedirects''
       = None
   \<and> Extract ex_IsMissingAnnotations ''Denied'' ex_extractor ex_ingress
       = Extract ex_IsMissingAnnotations ''Denied''
           (ex_extractor\<lparr>annotations :=
              [(''SSLPassthrough'', ex_bool_parser ''ingress.kubernetes.io/ssl-passthrough''),
               (''SecureUpstream'', ex_bool_parser ''ingress.kubernetes.io/secure-backends'')]
              @ [(''EnableCORS'', ex_bool_parser ''ingress.kubernetes.io/enable-cors'')]\<rparr>)
           ex_ingress"
proof -
  have split: "annotations ex_extractor =
       [(''SSLPassthrough'', ex_bool_parser ''ingress.kubernetes.io/ssl-passthrough''),
        (''SecureUpstream'', ex_bool_parser ''ingress.kubernetes.io/secure-backends'')]
       @ (''UsePortInRedirects'', ex_bool_parser ''ingress.kubernetes.io/use-port-in-redirects'')
       # [(''EnableCORS'', ex_bool_parser ''ingress.kubernetes.io/enable-cors'')]"
    by (simp add: ex_extractor_def ex_annotations_def)
  have parse: "ex_bool_parser ''ingress.kubernetes.io/use-port-in-redirects'' ex_ingress
       = (Some (VBool False), Some ex_ErrMissingAnnotations)"
    by (simp add: ex_bool_parser_def ex_ingress_def)
  have missing: "ex_IsMissingAnnotations ex_ErrMissingAnnotations"
    by (simp add: ex_IsMissingAnnotations_def)
  have d: "distinct (map fst (annotations ex_extractor))"
    by (simp add: ex_extractor_def ex_annotations_def)
  have n: "''UsePortInRedirects'' \<noteq> ''Denied''"
    by simp
  note inst = Extract_skips_missing_annotation
    [where DeniedKeyName = "''Denied''" and e = ex_extractor and ing = ex_ingress
       and name = "''UsePortInRedirects''"
       and annotationParser = "ex_bool_parser ''ingress.kubernetes.io/use-port-in-redirects''"
       and IsMissingAnnotations = ex_IsMissingAnnotations,
     OF split parse missing]
  have c1: "Extract ex_IsMissingAnnotations ''Denied'' ex_extractor ex_ingress
      ''UsePortInRedirects'' = None"
    using inst d n by blast
  have c2: "Extract ex_IsMissingAnnotations ''Denied'' ex_extractor ex_ingress
       = Extract ex_IsMissingAnnotations ''Denied''
           (ex_extractor\<lparr>annotations :=
              [(''SSLPassthrough'', ex_bool_parser ''ingress.kubernetes.io/ssl-passthrough''),
               (''SecureUpstream'', ex_bool_parser ''ingress.kubernetes.io/secure-backends'')]
              @ [(''EnableCORS'', ex_bool_parser ''ingress.kubernetes.io/enable-cors'')]\<rparr>)
           ex_ingress"
    using inst by blast
  show ?thesis using split parse missing d n c1 c2 by blast
qed

text \<open>
  C6. When the store holds the resource and the resource has no lock annotation,
  \<open>getCurrentLeader\<close> returns the empty identity, the resource and no error.
\<close>

theorem getCurrentLeader_no_annotation:
  assumes "c namespace electionID = Some endpoints"
    and "Annotations endpoints lockKey = None"
  shows "getCurrentLeader lockKey unmarshal electionID namespace c = ([], Some endpoints, None)"
  using assms by (simp add: getCurrentLeader_def)

text \<open>
  At the input of \<open>TestGetCurrentLeaderLeaderNotExist\<close>.
\<close>

theorem getCurrentLeader_no_annotation_witness:
  "NewSimpleClientset [fkEndpoints_LeaderNotExist] NamespaceSystem ''ingress-controller-test''
       = Some fkEndpoints_LeaderNotExist
   \<and> Annotations fkEndpoints_LeaderNotExist LeaderElectionRecordAnnotationKey = None
   \<and> getCurrentLeader LeaderElectionRecordAnnotationKey ex_unmarshal
         ''ingress-controller-test'' NamespaceSystem
         (NewSimpleClientset [fkEndpoints_LeaderNotExist])
       = ([], Some fkEndpoints_LeaderNotExist, None)"
proof -
  have found: "NewSimpleClientset [fkEndpoints_LeaderNotExist] NamespaceSystem
      ''ingress-controller-test'' = Some fkEndpoints_LeaderNotExist"
    by (simp add: NewSimpleClientset_def fkEndpoints_LeaderNotExist_def)
  have none: "Annotations fkEndpoints_LeaderNotExist LeaderElectionRecordAnnotationKey = None"
    by (simp add: fkEndpoints_LeaderNotExist_def)
  show ?thesis
    using found none getCurrentLeader_no_annotation
      [where c = "NewSimpleClientset [fkEndpoints_LeaderNotExist]" and namespace = NamespaceSystem
         and electionID = "''ingress-controller-test''" and unmarshal = ex_unmarshal,
       OF found none]
    by simp
qed

text \<open>
  C7. When the lock annotation of the resource is present and cannot be decoded as a lock
  record, \<open>getCurrentLeader\<close> returns the empty identity, no resource and a parse error.
\<close>

theorem getCurrentLeader_malformed_annotation:
  assumes "c namespace electionID = Some endpoints"
    and "Annotations endpoints lockKey = Some val"
    and "unmarshal val = None"
  shows "getCurrentLeader lockKey unmarshal electionID namespace c = ([], None, Some ParseError)"
  using assms by (simp add: getCurrentLeader_def)

text \<open>
  At the input of \<open>TestGetCurrentLeaderAnnotationError\<close>.
\<close>

theorem getCurrentLeader_malformed_annotation_witness:
  "NewSimpleClientset [fkEndpoints_AnnotationError] NamespaceSystem ''ingress-controller-test''
       = Some fkEndpoints_AnnotationError
   \<and> Annotations fkEndpoints_AnnotationError LeaderElectionRecordAnnotationKey
       = Some ''just-test-error-leader-annotation''
   \<and> ex_unmarshal ''just-test-error-leader-annotation'' = None
   \<and> getCurrentLeader LeaderElectionRecordAnnotationKey ex_unmarshal
         ''ingress-controller-test'' NamespaceSystem
         (NewSimpleClientset [fkEndpoints_AnnotationError])
       = ([], None, Some ParseError)"
proof -
  have found: "NewSimpleClientset [fkEndpoints_AnnotationError] NamespaceSystem
      ''ingress-controller-test'' = Some fkEndpoints_AnnotationError"
    by (simp add: NewSimpleClientset_def fkEndpoints_AnnotationError_def)
  have ann: "Annotations fkEndpoints_AnnotationError LeaderElectionRecordAnnotationKey
       = Some ''just-test-error-leader-annotation''"
    by (simp add: fkEndpoints_AnnotationError_def)
  have bad: "ex_unmarshal ''just-test-error-leader-annotation'' = None"
    by (simp add: ex_unmarshal_def leaderInfo_def)
  show ?thesis
    using found ann bad getCurrentLeader_malformed_annotation
      [where c = "NewSimpleClientset [fkEndpoints_AnnotationError]" and namespace = NamespaceSystem
         and electionID = "''ingress-controller-test''" and unmarshal = ex_unmarshal,
       OF found ann bad]
    by simp
qed

text \<open>
  C8. When the lock annotation of the resource decodes to a lock record,
  \<open>getCurrentLeader\<close> returns the \<open>HolderIdentity\<close> of that record, the resource and no
  error.
\<close>

theorem getCurrentLeader_holder_identity:
  assumes "c namespace electionID = Some endpoints"
    and "Annotations endpoints lockKey = Some val"
    and "unmarshal val = Some electionRecord"
  shows "getCurrentLeader lockKey unmarshal electionID namespace c
           = (HolderIdentity electionRecord, Some endpoints, None)"
  using assms by (simp add: getCurrentLeader_def)

text \<open>
  At the input of \<open>TestGetCurrentLeaderLeaderExist\<close>: the identity is \<open>currentLeader\<close>.
\<close>

theorem getCurrentLeader_holder_identity_witness:
  "NewSimpleClientset [fkEndpoints_LeaderExist] NamespaceSystem ''ingress-controller-test''
       = Some fkEndpoints_LeaderExist
   \<and> Annotations fkEndpoints_LeaderExist LeaderElectionRecordAnnotationKey = Some leaderInfo
   \<and> ex_unmarshal leaderInfo = Some fkER
   \<and> getCurrentLeader LeaderElectionRecordAnnotationKey ex_unmarshal
         ''ingress-controller-test'' NamespaceSystem
         (NewSimpleClientset [fkEndpoints_LeaderExist])
       = (''currentLeader'', Some fkEndpoints_LeaderExist, None)"
proof -
  have found: "NewSimpleClientset [fkEndpoints_LeaderExist] NamespaceSystem
      ''ingress-controller-test'' = Some fkEndpoints_LeaderExist"
    by (simp add: NewSimpleClientset_def fkEndpoints_LeaderExist_def)
  have ann: "Annotations fkEndpoints_LeaderExist LeaderElectionRecordAnnotationKey
       = Some leaderInfo"
    by (simp add: fkEndpoints_LeaderExist_def)
  have good: "ex_unmarshal leaderInfo = Some fkER"
    by (simp add: ex_unmarshal_def)
  have "HolderIdentity fkER = ''currentLeader''"
    by (simp add: fkER_def)
  then show ?thesis
    using found ann good getCurrentLeader_holder_identity
      [where c = "NewSimpleClientset [fkEndpoints_LeaderExist]" and namespace = NamespaceSystem
         and electionID = "''ingress-controller-test''" and unmarshal = ex_unmarshal,
       OF found ann good]
    by simp
qed

text \<open>
  C10. Let names be distinct and the denial key be reserved, and let the parser visited at
  some position fail hard. If no parser visited before it failed hard, the map returned by
  \<open>Extract\<close> has no entry under its name, whatever value it returned. If one did, the map
  holds under its name the value it returned, when that value is not nil.
\<close>

theorem Extract_value_of_hard_failure:
  assumes names: "distinct (map fst (annotations e))"
    and reserved: "DeniedKeyName \<notin> fst ` set (annotations e)"
    and split: "annotations e = ps @ (name, annotationParser) # qs"
    and parse: "annotationParser ing = (val, Some err)"
    and hard: "\<not> IsMissingAnnotations err"
  shows "Extract IsMissingAnnotations DeniedKeyName e ing name =
           (if \<exists>(n, p) \<in> set ps. hard_failure IsMissingAnnotations p ing
            then map_option Value val else None)"
proof -
  let ?M = IsMissingAnnotations and ?dk = DeniedKeyName
  obtain a0 l0 where before: "Extract_loop ?M ?dk ing ps (Map.empty, []) = (a0, l0)"
    by (cases "Extract_loop ?M ?dk ing ps (Map.empty, [])")
  obtain a1 l1 where step: "Extract_body ?M ?dk ing (name, annotationParser) (a0, l0) = (a1, l1)"
    by (cases "Extract_body ?M ?dk ing (name, annotationParser) (a0, l0)")
  have run: "Extract ?M ?dk e ing = fst (Extract_loop ?M ?dk ing qs (a1, l1))"
    by (simp add: Extract_def Extract_run_def split Extract_loop_append before step)
  have name_ps: "name \<notin> fst ` set ps" and name_qs: "name \<notin> fst ` set qs"
    using names split by auto
  have name_dk: "name \<noteq> ?dk" and dk_ps: "?dk \<notin> fst ` set ps"
    using reserved split by auto
  have "fst (Extract_loop ?M ?dk ing ps (Map.empty, [])) name = None"
    by (rule Extract_loop_absent [OF _ name_ps name_dk]) simp
  then have a0_name: "a0 name = None" using before by simp
  show ?thesis
  proof (cases "\<exists>(n, p) \<in> set ps. hard_failure ?M p ing")
    case True
    then obtain n p where "(n, p) \<in> set ps" and "hard_failure ?M p ing" by blast
    then have "fst (Extract_loop ?M ?dk ing ps (Map.empty, [])) ?dk \<noteq> None"
      by (rule Extract_loop_denied_after_hard_failure)
    then have a0_dk: "a0 ?dk \<noteq> None" using before by simp
    have a1: "a1 = store_val name val a0"
      using step parse hard a0_dk by (auto simp: Extract_body_def Let_def)
    show ?thesis
    proof (cases val)
      case None
      then have "a1 name = None" using a1 a0_name by (simp add: store_val_def)
      then have "fst (Extract_loop ?M ?dk ing qs (a1, l1)) name = None"
        using name_qs name_dk by (rule Extract_loop_absent)
      then show ?thesis using True None run by simp
    next
      case (Some v)
      then have "a1 name = Some (Value v)" using a1 by (simp add: store_val_def)
      then have "fst (Extract_loop ?M ?dk ing qs (a1, l1)) name = Some (Value v)"
        using name_qs by (rule Extract_loop_keeps)
      then show ?thesis using True Some run by simp
    qed
  next
    case False
    then have first: "\<forall>(n, p) \<in> set ps. \<not> hard_failure ?M p ing" by blast
    have "fst (Extract_loop ?M ?dk ing ps (Map.empty, [])) ?dk = None"
      by (rule Extract_loop_no_denial [OF _ dk_ps first]) simp
    then have a0_dk: "a0 ?dk = None" using before by simp
    have "a1 = a0(?dk \<mapsto> Denial err)"
      using step parse hard a0_dk by (simp add: Extract_body_def Let_def)
    then have "a1 name = None" using a0_name name_dk by simp
    then have "fst (Extract_loop ?M ?dk ing qs (a1, l1)) name = None"
      using name_qs name_dk by (rule Extract_loop_absent)
    then show ?thesis using False run by simp
  qed
qed

text \<open>
  At the example: \<open>SecureUpstream\<close> and \<open>EnableCORS\<close> both fail hard and both return
  \<open>false\<close>; only the second one's value is stored.
\<close>

theorem Extract_value_of_hard_failure_witness:
  "distinct (map fst (annotations ex_extractor))
   \<and> ''Denied'' \<notin> fst ` set (annotations ex_extractor)
   \<and> ex_bool_parser ''ingress.kubernetes.io/secure-backends'' ex_ingress
       = (Some (VBool False), Some (Ext ''invalid syntax: maybe''))
   \<and> \<not> ex_IsMissingAnnotations (Ext ''invalid syntax: maybe'')
   \<and> ex_bool_parser ''ingress.kubernetes.io/enable-cors'' ex_ingress
       = (Some (VBool False), Some (Ext ''invalid syntax: perhaps''))
   \<and> \<not> ex_IsMissingAnnotations (Ext ''invalid syntax: perhaps'')
   \<and> Extract ex_IsMissingAnnotations ''Denied'' ex_extractor ex_ingress ''SecureUpstream''
       = None
   \<and> Extract ex_IsMissingAnnotations ''Denied'' ex_extractor ex_ingress ''EnableCORS''
       = Some (Value (VBool False))"
proof -
  let ?ssl = "(''SSLPassthrough'', ex_bool_parser ''ingress.kubernetes.io/ssl-passthrough'')"
  let ?sec = "(''SecureUpstream'', ex_bool_parser ''ingress.kubernetes.io/secure-backends'')"
  let ?port = "(''UsePortInRedirects'', ex_bool_parser ''ingress.kubernetes.io/use-port-in-redirects'')"
  let ?cors = "(''EnableCORS'', ex_bool_parser ''ingress.kubernetes.io/enable-cors'')"
  have names: "distinct (map fst (annotations ex_extractor))"
    by (simp add: ex_extractor_def ex_annotations_def)
  have reserved: "''Denied'' \<notin> fst ` set (annotations ex_extractor)"
    by (simp add: ex_extractor_def ex_annotations_def)
  have split1: "annotations ex_extractor = [?ssl] @ ?sec # [?port, ?cors]"
    by (simp add: ex_extractor_def ex_annotations_def)
  have split2: "annotations ex_extractor = [?ssl, ?sec, ?port] @ ?cors # []"
    by (simp add: ex_extractor_def ex_annotations_def)
  have parse1: "ex_bool_parser ''ingress.kubernetes.io/secure-backends'' ex_ingress
       = (Some (VBool False), Some (Ext ''invalid syntax: maybe''))"
    by (simp add: ex_defs)
  have hard1: "\<not> ex_IsMissingAnnotations (Ext ''invalid syntax: maybe'')"
    by (simp add: ex_defs)
  have parse2: "ex_bool_parser ''ingress.kubernetes.io/enable-cors'' ex_ingress
       = (Some (VBool False), Some (Ext ''invalid syntax: perhaps''))"
    by (simp add: ex_defs)
  have hard2: "\<not> ex_IsMissingAnnotations (Ext ''invalid syntax: perhaps'')"
    by (simp add: ex_defs)
  have ssl_ok: "\<not> hard_failure ex_IsMissingAnnotations (snd ?ssl) ex_ingress"
    by (simp add: ex_defs hard_failure_def)
  have sec_fails: "hard_failure ex_IsMissingAnnotations (snd ?sec) ex_ingress"
    by (simp add: ex_defs hard_failure_def)
  have c1: "Extract ex_IsMissingAnnotations ''Denied'' ex_extractor ex_ingress ''SecureUpstream''
       = None"
    using Extract_value_of_hard_failure
      [where name = "''SecureUpstream''" and ing = ex_ingress
         and annotationParser = "ex_bool_parser ''ingress.kubernetes.io/secure-backends''"
         and IsMissingAnnotations = ex_IsMissingAnnotations,
       OF names reserved split1 parse1 hard1] ssl_ok
    by simp
  have c2: "Extract ex_IsMissingAnnotations ''Denied'' ex_extractor ex_ingress ''EnableCORS''
       = Some (Value (VBool False))"
    using Extract_value_of_hard_failure
      [where name = "''EnableCORS''" and ing = ex_ingress
         and annotationParser = "ex_bool_parser ''ingress.kubernetes.io/enable-cors''"
         and IsMissingAnnotations = ex_IsMissingAnnotations,
       OF names reserved split2 parse2 hard2] sec_fails
    by simp
  show ?thesis using names reserved parse1 hard1 parse2 hard2 c1 c2 by blast
qed

end
